theory Spec2Isabelle
  imports Complex_Main "HOL-Library.AList" "HOL-Library.Stream" "HOL-Library.Log_Nat"
begin

section \<open>The device registry of the building energy dashboard\<close>

text \<open>
  The program (\<^verbatim>\<open>streamlit_app.py\<close>) keeps one Python dictionary,
  \<^verbatim>\<open>st.session_state.building_data\<close>, from a device id to a record (itself a
  dictionary with fixed string keys). This theory embeds the code that creates, reads and
  mutates that dictionary.

  \<^item> A Python \<^verbatim>\<open>dict\<close> keeps insertion order and holds each key once. It is modelled as an
    association list: \<^verbatim>\<open>d[k] = v\<close> is \<^const>\<open>AList.update\<close> (replace in place when the
    key is there, append otherwise), \<^verbatim>\<open>del d[k]\<close> is \<^const>\<open>AList.delete\<close>,
    \<^verbatim>\<open>d.get(k)\<close> is \<^const>\<open>map_of\<close>, \<^verbatim>\<open>k in d\<close> is membership in the list of keys and
    \<^verbatim>\<open>d[k][f] = x\<close> is \<^const>\<open>AList.map_entry\<close>. A well-formed dictionary is a list whose
    keys are distinct.
  \<^item> A Python float is a double: a rational on the grid of 53-bit significands. Each
    product and quotient of the generation is the exact result rounded to the nearest
    double (\<open>to_double\<close>), and \<^verbatim>\<open>round(x, 2)\<close> rounds the exact value of \<open>x\<close> to the
    nearest hundredth, ties to even, and returns the nearest double (\<open>py_round2\<close>).
    Only the sums of the overview page are taken exactly.
  \<^item> The calls to \<^verbatim>\<open>random\<close> read a stream of draws that the model takes as an
    argument: one triple (power, energy, status) for each room, in the order of the calls.
\<close>

subsection \<open>Records\<close>

text \<open>
  The keys of a room dictionary. \<^verbatim>\<open>'floor'\<close> and \<^verbatim>\<open>'power'\<close> are suffixed, since
  both names are constants of HOL (a variable of that name is primed). \<^verbatim>\<open>'device_type'\<close> is present only in the
  dictionaries built by the "Add New Device" form.
\<close>

record room =
  room_id :: string
  room_name :: string
  floor_nm :: string
  ac_status :: bool
  power_w :: int
  voltage :: int
  current :: rat
  energy_kwh :: rat
  cost_taka :: rat
  carbon_emissions :: rat
  device_type :: "string option"

type_synonym building_data = "(string \<times> room) list"

subsection \<open>The building structure\<close>

definition get_building_structure :: "(string \<times> string list) list" where
  "get_building_structure =
    [(''Ground'', [''Room 101'', ''Room 102'', ''Room 103'']),
     (''1'', [''Room 201'', ''Room 202'', ''Room 203'', ''Room 204'']),
     (''2'', [''Room 301'', ''Room 302'', ''Room 303'']),
     (''3'', [''Room 401'', ''Room 402'', ''Room 403'', ''Room 404'']),
     (''4'', [''Room 501'', ''Room 502'']),
     (''5'', [''Room 601'', ''Room 602'', ''Room 603''])]"

subsection \<open>Generation of the initial data\<close>

text \<open>\<^verbatim>\<open>room.replace(" ", "")\<close>: every space character is dropped.\<close>

definition replace_space :: "string \<Rightarrow> string" where
  "replace_space room = filter (\<lambda>c. c \<noteq> CHR '' '') room"

text \<open>
  Doubles. A double is a rational \<open>m * 2 ^ e\<close> with \<open>\<bar>m\<bar> < 2 ^ 53\<close>. The result of a
  floating-point operation is the exact result rounded to the nearest double, a tie going
  to the even significand: with \<open>2 ^ e \<le> \<bar>x\<bar> < 2 ^ (e + 1)\<close> the spacing of the
  doubles around \<open>x\<close> is \<open>2 ^ (e - 52)\<close>. Overflow and subnormal numbers are left out:
  every value of this program lies between 1 and 12500.
\<close>

definition round_half_even :: "rat \<Rightarrow> int" where
  "round_half_even x =
    (let f = \<lfloor>x\<rfloor>; d = x - of_int f
     in if d < 1 / 2 then f
        else if 1 / 2 < d then f + 1
        else if even f then f else f + 1)"

definition binary_exponent :: "rat \<Rightarrow> int" where
  "binary_exponent x =
    (if 1 \<le> x then bitlen \<lfloor>x\<rfloor> - 1 else - bitlen (\<lceil>1 / x\<rceil> - 1))"

definition ulp :: "rat \<Rightarrow> rat" where
  "ulp x =
    (let e = binary_exponent \<bar>x\<bar> - 52
     in if 0 \<le> e then 2 ^ nat e else 1 / 2 ^ nat (- e))"

definition to_double :: "rat \<Rightarrow> rat" where
  "to_double x = (if x = 0 then 0 else of_int (round_half_even (x / ulp x)) * ulp x)"

text \<open>
  \<^verbatim>\<open>round(x, 2)\<close> of CPython: the exact value of the double \<open>x\<close> is rounded to the
  nearest hundredth, a tie going to the even one, and the decimal obtained is converted to
  the nearest double.
\<close>

definition round2 :: "rat \<Rightarrow> rat" where
  "round2 x = of_int (round_half_even (x * 100)) / 100"

definition py_round2 :: "rat \<Rightarrow> rat" where
  "py_round2 x = to_double (round2 x)"

text \<open>
  What one pass of the inner loop draws: \<^verbatim>\<open>random.randint(800, 2000)\<close>,
  \<^verbatim>\<open>random.uniform(5, 25)\<close> and \<^verbatim>\<open>random.choice([True, False])\<close>. The energy drawn
  is a double; the model admits every rational of the range.
\<close>

record draw =
  d_power :: int
  d_energy :: rat
  d_status :: bool

definition valid_draw :: "draw \<Rightarrow> bool" where
  "valid_draw d \<longleftrightarrow> 800 \<le> d_power d \<and> d_power d \<le> 2000 \<and> 5 \<le> d_energy d \<and> d_energy d \<le> 25"

text \<open>
  The body of the inner loop: the dictionary stored for one room. \<^verbatim>\<open>power / voltage\<close>
  divides two integers and gives the nearest double of the quotient; \<^verbatim>\<open>8.5\<close> and
  \<^verbatim>\<open>500\<close> are doubles, and each product is the nearest double of the exact product.
\<close>

definition make_room :: "string \<Rightarrow> string \<Rightarrow> draw \<Rightarrow> room" where
  "make_room floor' room d =
    (let room_id = replace_space room;
         power' = d_power d;
         voltage = 220;
         current = to_double (of_int power' / of_int voltage);
         energy_kwh = d_energy d;
         cost_taka = to_double (energy_kwh * (17 / 2));
         carbon_emissions = to_double (energy_kwh * 500)
     in \<lparr>room_id = room_id,
         room_name = room,
         floor_nm = floor',
         ac_status = d_status d,
         power_w = power',
         voltage = voltage,
         current = py_round2 current,
         energy_kwh = py_round2 energy_kwh,
         cost_taka = py_round2 cost_taka,
         carbon_emissions = py_round2 carbon_emissions,
         device_type = None\<rparr>)"

text \<open>The inner loop over the rooms of one floor, and the outer loop over the floors.\<close>

fun gen_rooms :: "string \<Rightarrow> string list \<Rightarrow> building_data \<times> draw stream \<Rightarrow> building_data \<times> draw stream" where
  "gen_rooms floor' [] st = st"
| "gen_rooms floor' (room # rooms) (data, rng) =
    gen_rooms floor' rooms
      (AList.update (replace_space room) (make_room floor' room (shd rng)) data, stl rng)"

fun gen_floors :: "(string \<times> string list) list \<Rightarrow> building_data \<times> draw stream \<Rightarrow> building_data \<times> draw stream" where
  "gen_floors [] st = st"
| "gen_floors ((floor', rooms) # fs) st = gen_floors fs (gen_rooms floor' rooms st)"

definition generate_synthetic_data :: "draw stream \<Rightarrow> building_data" where
  "generate_synthetic_data rng = fst (gen_floors get_building_structure ([], rng))"

text \<open>
  The (floor, room) pairs in the order in which the two loops visit them, and the
  dictionary entry that one pass of the inner loop stores for a pair and a draw.
\<close>

definition floor_rooms :: "(string \<times> string list) list \<Rightarrow> (string \<times> string) list" where
  "floor_rooms structure = concat (map (\<lambda>(floor', rooms). map (Pair floor') rooms) structure)"

definition room_entry :: "(string \<times> string) \<times> draw \<Rightarrow> string \<times> room" where
  "room_entry = (\<lambda>((floor', room), d). (replace_space room, make_room floor' room d))"

subsection \<open>Switching a device\<close>

definition update_device_status :: "string \<Rightarrow> bool \<Rightarrow> building_data \<Rightarrow> building_data \<times> bool" where
  "update_device_status device_id status data =
    (if device_id \<in> set (map fst data)
     then (AList.map_entry device_id (\<lambda>r. r\<lparr>ac_status := status\<rparr>) data, True)
     else (data, False))"

subsection \<open>The device management page\<close>

text \<open>What the page shows after a submitted form: \<^verbatim>\<open>st.success\<close> or \<^verbatim>\<open>st.error\<close>.\<close>

datatype notice = is_Success: Success string | is_Error: Error string

text \<open>
  The handler of the submitted "Add New Device" form. A Python string is true when it is
  not empty. The form's number input has \<^verbatim>\<open>min_value=0\<close> and gives an integer;
  \<^verbatim>\<open>power_rating / 220\<close> is the nearest double of the quotient.
\<close>

definition new_device :: "string \<Rightarrow> string \<Rightarrow> string \<Rightarrow> string \<Rightarrow> string \<Rightarrow> int \<Rightarrow> room" where
  "new_device device_id name floor' dtype initial_status power_rating =
    \<lparr>room_id = device_id,
     room_name = name,
     floor_nm = floor',
     ac_status = (initial_status = ''ON''),
     power_w = power_rating,
     voltage = 220,
     current = to_double (of_int power_rating / 220),
     energy_kwh = 0,
     cost_taka = 0,
     carbon_emissions = 0,
     device_type = Some dtype\<rparr>"

definition add_device ::
  "string \<Rightarrow> string \<Rightarrow> string \<Rightarrow> string \<Rightarrow> string \<Rightarrow> int \<Rightarrow> building_data \<Rightarrow> building_data \<times> notice" where
  "add_device device_id name floor' dtype initial_status power_rating data =
    (if device_id \<noteq> [] \<and> name \<noteq> []
     then (AList.update device_id
             (new_device device_id name floor' dtype initial_status power_rating) data,
           Success (''Device '' @ device_id @ '' added successfully!''))
     else (data, Error ''Please fill in all required fields''))"

text \<open>
  The handler of a "Delete" button: \<^verbatim>\<open>if data.get(device_id): del data[device_id]\<close>.
  A stored record is a dictionary with at least ten keys, hence true.
\<close>

definition delete_device :: "string \<Rightarrow> building_data \<Rightarrow> building_data" where
  "delete_device device_id data =
    (case map_of data device_id of
       None \<Rightarrow> data
     | Some r \<Rightarrow> AList.delete device_id data)"

subsection \<open>The summary metrics of the overview page\<close>

record overview =
  total_energy :: rat
  total_cost :: rat
  total_carbon :: rat
  active_devices :: nat
  device_count :: nat

definition building_overview :: "building_data \<Rightarrow> overview" where
  "building_overview data =
    \<lparr>total_energy = sum_list (map (\<lambda>(k, r). energy_kwh r) data),
     total_cost = sum_list (map (\<lambda>(k, r). cost_taka r) data),
     total_carbon = sum_list (map (\<lambda>(k, r). carbon_emissions r) data),
     active_devices = length (filter (\<lambda>(k, r). ac_status r) data),
     device_count = length data\<rparr>"

subsection \<open>Registry states and example data\<close>

text \<open>
  The registry states the program can be in: the generated data (for draws in the ranges
  of the \<^verbatim>\<open>random\<close> calls), and what the three handlers make of a reachable state.
\<close>

inductive reachable :: "building_data \<Rightarrow> bool" where
  initial: "\<forall>d \<in> sset rng. valid_draw d \<Longrightarrow> reachable (generate_synthetic_data rng)"
| switched: "reachable data \<Longrightarrow> reachable (fst (update_device_status device_id status data))"
| added: "reachable data \<Longrightarrow> 0 \<le> power_rating \<Longrightarrow>
    reachable (fst (add_device device_id name floor' dtype initial_status power_rating data))"
| deleted: "reachable data \<Longrightarrow> reachable (delete_device device_id data)"

text \<open>Each record is stored under its own \<^verbatim>\<open>'room_id'\<close>.\<close>

definition keyed_by_room_id :: "building_data \<Rightarrow> bool" where
  "keyed_by_room_id data = list_all (\<lambda>(k, r). room_id r = k) data"

text \<open>
  Example data: two generated rooms, Room 101 (10 kWh, on) and Room 102 (5 kWh, off), and
  a draw with power 800 and energy 5.1875.
\<close>

definition room101 :: room where
  "room101 = make_room ''Ground'' ''Room 101'' \<lparr>d_power = 1100, d_energy = 10, d_status = True\<rparr>"

definition room102 :: room where
  "room102 = make_room ''Ground'' ''Room 102'' \<lparr>d_power = 880, d_energy = 5, d_status = False\<rparr>"

definition two_rooms :: building_data where
  "two_rooms = [(''Room101'', room101), (''Room102'', room102)]"

definition low_draw :: draw where
  "low_draw = \<lparr>d_power = 800, d_energy = 83 / 16, d_status = True\<rparr>"

definition low_room :: room where
  "low_room = make_room ''Ground'' ''Room 101'' low_draw"

text \<open>A session: generate, switch Room101 off, add a device, delete Room102.\<close>

definition after_session :: building_data where
  "after_session =
    delete_device ''Room102''
      (fst (add_device ''Lab1'' ''Lab'' ''2'' ''Light'' ''ON'' 60
        (fst (update_device_status ''Room101'' False
          (generate_synthetic_data (sconst low_draw))))))"

subsection \<open>The id as the specification words it\<close>

text \<open>
  The specification describes the id of a generated room as the room name with whitespace
  removed, where the code removes the space character only. This is the specification's
  reading, with the characters for which Python's \<^verbatim>\<open>str.isspace\<close> holds in ASCII; it
  is compared with \<^const>\<open>replace_space\<close> on the room names of the building.
\<close>

definition is_whitespace :: "char \<Rightarrow> bool" where
  "is_whitespace c \<longleftrightarrow>
    c \<in> set [CHR '' '', CHR 0x09, CHR 0x0A, CHR 0x0B, CHR 0x0C, CHR 0x0D,
             CHR 0x1C, CHR 0x1D, CHR 0x1E, CHR 0x1F]"

definition remove_whitespace :: "string \<Rightarrow> string" where
  "remove_whitespace s = filter (\<lambda>c. \<not> is_whitespace c) s"

section \<open>Dictionary operations\<close>

lemma map_entry_twice:
  "AList.map_entry k f (AList.map_entry k f xs) = AList.map_entry k (f \<circ> f) xs"
  by (induction xs) auto

lemma map_entry_keys: "map fst (AList.map_entry k f xs) = map fst xs"
  by (induction xs) auto

lemma map_of_map_entry_same:
  "map_of xs k = Some v \<Longrightarrow> map_of (AList.map_entry k f xs) k = Some (f v)"
  by (simp add: map_of_map_entry)

lemma map_of_map_entry_other:
  "k' \<noteq> k \<Longrightarrow> map_of (AList.map_entry k f xs) k' = map_of xs k'"
  by (simp add: map_of_map_entry)

lemma update_present_keys:
  "k \<in> set (map fst al) \<Longrightarrow> map fst (AList.update k v al) = map fst al"
  by (simp add: update_keys)

lemma update_fresh_keys:
  "k \<notin> set (map fst al) \<Longrightarrow> map fst (AList.update k v al) = map fst al @ [k]"
  by (simp add: update_keys)

lemma two_rooms_keys: "map fst two_rooms = [''Room101'', ''Room102'']"
  by (simp add: two_rooms_def)

section \<open>Switching a device: idempotence, absent ids, frame\<close>

text \<open>
  C4. Switching a device to a status twice in a row gives the same registry, and the same
  return value, as switching it once; this holds for every registry, id and status.
\<close>

theorem set_status_idempotent:
  "update_device_status device_id status (fst (update_device_status device_id status data))
     = update_device_status device_id status data"
proof (cases "device_id \<in> set (map fst data)")
  case True
  let ?f = "\<lambda>r::room. r\<lparr>ac_status := status\<rparr>"
  have same: "?f \<circ> ?f = ?f"
    by (simp add: fun_eq_iff)
  have "device_id \<in> set (map fst (AList.map_entry device_id ?f data))"
    using True by (simp only: map_entry_keys)
  with True same show ?thesis
    by (simp add: update_device_status_def map_entry_twice)
next
  case False
  then show ?thesis
    by (simp add: update_device_status_def)
qed

text \<open>
  C5. For an id that is not a key of the registry, switching returns \<open>False\<close> and the
  registry it leaves is the one it was given. The function is total: no branch raises.
\<close>

theorem set_status_absent:
  "device_id \<notin> set (map fst data) \<Longrightarrow>
     update_device_status device_id status data = (data, False)"
  by (simp add: update_device_status_def)

theorem set_status_absent_witness:
  "''NoSuchId'' \<notin> set (map fst two_rooms) \<and>
   update_device_status ''NoSuchId'' True two_rooms = (two_rooms, False)"
proof -
  have absent: "''NoSuchId'' \<notin> set (map fst two_rooms)"
    by (simp add: two_rooms_keys)
  from set_status_absent [OF absent] absent show ?thesis
    by simp
qed

text \<open>
  C10. For an id that is a key of the registry, switching returns \<open>True\<close>; the record
  stored under the id is the old one with only \<open>ac_status\<close> replaced, every other id
  maps to what it mapped to, and the keys and their order stay.
\<close>

theorem set_status_frame:
  assumes "map_of data device_id = Some r"
  shows "snd (update_device_status device_id status data) = True \<and>
    map_of (fst (update_device_status device_id status data)) device_id
      = Some (r\<lparr>ac_status := status\<rparr>) \<and>
    (\<forall>k. k \<noteq> device_id \<longrightarrow>
       map_of (fst (update_device_status device_id status data)) k = map_of data k) \<and>
    map fst (fst (update_device_status device_id status data)) = map fst data"
proof -
  from assms have present: "device_id \<in> set (map fst data)"
    by (metis domI dom_map_of_conv_image_fst set_map)
  then have run: "update_device_status device_id status data
      = (AList.map_entry device_id (\<lambda>r. r\<lparr>ac_status := status\<rparr>) data, True)"
    by (simp add: update_device_status_def)
  show ?thesis
    unfolding run using assms
    by (simp add: map_of_map_entry_same map_of_map_entry_other map_entry_keys)
qed

theorem set_status_frame_witness:
  "map_of two_rooms ''Room102'' = Some room102 \<and>
   snd (update_device_status ''Room102'' True two_rooms) = True \<and>
   map_of (fst (update_device_status ''Room102'' True two_rooms)) ''Room102''
     = Some (room102\<lparr>ac_status := True\<rparr>) \<and>
   map_of (fst (update_device_status ''Room102'' True two_rooms)) ''Room101''
     = map_of two_rooms ''Room101'' \<and>
   map fst (fst (update_device_status ''Room102'' True two_rooms)) = map fst two_rooms"
proof -
  have present: "map_of two_rooms ''Room102'' = Some room102"
    by (simp add: two_rooms_def)
  from set_status_frame [OF present, of True] present show ?thesis
    by simp
qed

section \<open>Adding a device\<close>

text \<open>
  C7. A submitted form whose id is empty, or whose room name is empty, is rejected: the
  registry (hence its size) is left as it was, and the page shows the error
  "Please fill in all required fields".
\<close>

theorem add_rejects_empty:
  assumes "device_id = [] \<or> name = []"
  shows "add_device device_id name floor' dtype initial_status power_rating data
    = (data, Error ''Please fill in all required fields'')"
  using assms by (auto simp: add_device_def)

theorem add_rejects_empty_witness:
  "add_device [] ''X'' ''Ground'' ''AC'' ''ON'' 1500 two_rooms
     = (two_rooms, Error ''Please fill in all required fields'') \<and>
   add_device ''Room777'' [] ''Ground'' ''AC'' ''ON'' 1500 two_rooms
     = (two_rooms, Error ''Please fill in all required fields'') \<and>
   length (fst (add_device [] ''X'' ''Ground'' ''AC'' ''ON'' 1500 two_rooms)) = length two_rooms"
proof -
  have no_id: "([]::string) = [] \<or> ''X'' = []"
    by simp
  have no_name: "''Room777'' = [] \<or> ([]::string) = []"
    by simp
  from add_rejects_empty [OF no_id] add_rejects_empty [OF no_name] show ?thesis
    by simp
qed

text \<open>
  C1, as the specification states it, fails: the handler has no test for an id that is
  already a key. Submitting the id \<open>Room101\<close> on the two example rooms replaces the
  stored record and reports success.
\<close>

theorem add_existing_id_counterexample:
  "''Room101'' \<in> set (map fst two_rooms) \<and>
   fst (add_device ''Room101'' ''X'' ''Ground'' ''AC'' ''OFF'' 1500 two_rooms) \<noteq> two_rooms \<and>
   \<not> is_Error (snd (add_device ''Room101'' ''X'' ''Ground'' ''AC'' ''OFF'' 1500 two_rooms)) \<and>
   map_of (fst (add_device ''Room101'' ''X'' ''Ground'' ''AC'' ''OFF'' 1500 two_rooms)) ''Room101''
     \<noteq> map_of two_rooms ''Room101''"
  by (simp add: add_device_def two_rooms_def new_device_def room101_def make_room_def)

text \<open>
  C1, amended. A submitted form is rejected exactly when its id or its room name is empty.
  With a non-empty id and a non-empty room name it is always accepted: the page reports
  success, the new device is stored under the id, and every other id maps to what it
  mapped to. When the id is already a key, the record stored under it is replaced, and the
  keys, their order and the size of the registry stay. When the id is new, it becomes the
  last key.
\<close>

theorem add_accepts_and_overwrites:
  "(is_Error (snd (add_device device_id name floor' dtype initial_status power_rating data))
      \<longleftrightarrow> device_id = [] \<or> name = []) \<and>
   (device_id \<noteq> [] \<and> name \<noteq> [] \<longrightarrow>
      snd (add_device device_id name floor' dtype initial_status power_rating data)
        = Success (''Device '' @ device_id @ '' added successfully!'') \<and>
      map_of (fst (add_device device_id name floor' dtype initial_status power_rating data))
          device_id
        = Some (new_device device_id name floor' dtype initial_status power_rating) \<and>
      (\<forall>k. k \<noteq> device_id \<longrightarrow>
         map_of (fst (add_device device_id name floor' dtype initial_status power_rating data)) k
           = map_of data k) \<and>
      (device_id \<in> set (map fst data) \<longrightarrow>
         map fst (fst (add_device device_id name floor' dtype initial_status power_rating data))
           = map fst data) \<and>
      (device_id \<notin> set (map fst data) \<longrightarrow>
         map fst (fst (add_device device_id name floor' dtype initial_status power_rating data))
           = map fst data @ [device_id]))"
proof (intro conjI impI)
  show "is_Error (snd (add_device device_id name floor' dtype initial_status power_rating data))
      \<longleftrightarrow> device_id = [] \<or> name = []"
    by (simp add: add_device_def)
next
  let ?new = "new_device device_id name floor' dtype initial_status power_rating"
  let ?run = "add_device device_id name floor' dtype initial_status power_rating data"
  assume "device_id \<noteq> [] \<and> name \<noteq> []"
  then have run: "?run = (AList.update device_id ?new data,
      Success (''Device '' @ device_id @ '' added successfully!''))"
    by (simp add: add_device_def)
  show "snd ?run = Success (''Device '' @ device_id @ '' added successfully!'')"
    by (simp add: run)
  show "map_of (fst ?run) device_id = Some ?new"
    by (simp add: run update_conv')
  show "\<forall>k. k \<noteq> device_id \<longrightarrow> map_of (fst ?run) k = map_of data k"
    by (simp add: run update_conv')
  show "map fst (fst ?run) = map fst data" if "device_id \<in> set (map fst data)"
    using that by (simp add: run update_present_keys)
  show "map fst (fst ?run) = map fst data @ [device_id]" if "device_id \<notin> set (map fst data)"
    using that by (simp add: run update_fresh_keys)
qed

theorem add_accepts_and_overwrites_witness:
  "''Room101'' \<in> set (map fst two_rooms) \<and>
   ''Lab1'' \<notin> set (map fst two_rooms) \<and>
   \<not> is_Error (snd (add_device ''Room101'' ''X'' ''Ground'' ''AC'' ''OFF'' 1500 two_rooms)) \<and>
   snd (add_device ''Room101'' ''X'' ''Ground'' ''AC'' ''OFF'' 1500 two_rooms)
      = Success ''Device Room101 added successfully!'' \<and>
   map_of (fst (add_device ''Room101'' ''X'' ''Ground'' ''AC'' ''OFF'' 1500 two_rooms)) ''Room101''
      = Some (new_device ''Room101'' ''X'' ''Ground'' ''AC'' ''OFF'' 1500) \<and>
   map_of (fst (add_device ''Room101'' ''X'' ''Ground'' ''AC'' ''OFF'' 1500 two_rooms)) ''Room102''
      = map_of two_rooms ''Room102'' \<and>
   map fst (fst (add_device ''Room101'' ''X'' ''Ground'' ''AC'' ''OFF'' 1500 two_rooms))
      = [''Room101'', ''Room102''] \<and>
   snd (add_device ''Lab1'' ''Lab'' ''2'' ''Light'' ''ON'' 60 two_rooms)
      = Success ''Device Lab1 added successfully!'' \<and>
   map_of (fst (add_device ''Lab1'' ''Lab'' ''2'' ''Light'' ''ON'' 60 two_rooms)) ''Lab1''
      = Some (new_device ''Lab1'' ''Lab'' ''2'' ''Light'' ''ON'' 60) \<and>
   map fst (fst (add_device ''Lab1'' ''Lab'' ''2'' ''Light'' ''ON'' 60 two_rooms))
      = [''Room101'', ''Room102'', ''Lab1''] \<and>
   is_Error (snd (add_device [] ''Lab'' ''2'' ''Light'' ''ON'' 60 two_rooms))"
proof -
  have present: "''Room101'' \<in> set (map fst two_rooms)"
    and fresh: "''Lab1'' \<notin> set (map fst two_rooms)"
    by (simp_all add: two_rooms_keys)
  from add_accepts_and_overwrites
      [of "''Room101''" "''X''" "''Ground''" "''AC''" "''OFF''" 1500 two_rooms]
    add_accepts_and_overwrites
      [of "''Lab1''" "''Lab''" "''2''" "''Light''" "''ON''" 60 two_rooms]
    add_accepts_and_overwrites
      [of "[]" "''Lab''" "''2''" "''Light''" "''ON''" 60 two_rooms]
  show ?thesis
    using present fresh by (simp add: two_rooms_keys)
qed

section \<open>Sums over a dictionary\<close>

text \<open>
  The overview sums over \<^verbatim>\<open>data.values()\<close>. For a list with distinct keys these sums
  are sums over the domain of the mapping, and deleting a key takes out one summand.
\<close>

lemma sum_list_delete:
  fixes f :: "'k \<times> 'v \<Rightarrow> 'a::comm_monoid_add"
  assumes "distinct (map fst al)" and "map_of al k = Some v"
  shows "sum_list (map f al) = f (k, v) + sum_list (map f (AList.delete k al))"
  using assms
proof (induction al)
  case Nil
  then show ?case by simp
next
  case (Cons p al)
  obtain l w where p: "p = (l, w)" by (cases p)
  show ?case
  proof (cases "l = k")
    case True
    with Cons.prems p have "w = v" and "k \<notin> fst ` set al"
      by auto
    with True show ?thesis
      by (simp add: p)
  next
    case False
    with Cons.prems p have "distinct (map fst al)" and "map_of al k = Some v"
      by auto
    with Cons.IH have "sum_list (map f al) = f (k, v) + sum_list (map f (AList.delete k al))"
      by simp
    with False show ?thesis
      by (simp add: p add.left_commute)
  qed
qed

lemma length_filter_sum: "length (filter P xs) = sum_list (map (\<lambda>x. if P x then 1 else 0) xs)"
  by (induction xs) auto

lemma length_as_sum: "length xs = sum_list (map (\<lambda>x. 1) xs)"
  by (induction xs) auto

lemma sum_list_dom:
  fixes g :: "'v \<Rightarrow> 'a::comm_monoid_add"
  assumes "distinct (map fst al)"
  shows "sum_list (map (\<lambda>(k, r). g r) al) = (\<Sum>k \<in> dom (map_of al). g (the (map_of al k)))"
  using assms
proof (induction al)
  case Nil
  then show ?case by simp
next
  case (Cons p al)
  obtain k r where p: "p = (k, r)" by (cases p)
  from Cons.prems p have fresh: "k \<notin> dom (map_of al)" and dist: "distinct (map fst al)"
    by (auto simp: dom_map_of_conv_image_fst)
  have "(\<Sum>k' \<in> dom (map_of (p # al)). g (the (map_of (p # al) k')))
      = g r + (\<Sum>k' \<in> dom (map_of al). g (the (map_of (p # al) k')))"
    using fresh by (simp add: p finite_dom_map_of)
  also have "(\<Sum>k' \<in> dom (map_of al). g (the (map_of (p # al) k')))
      = (\<Sum>k' \<in> dom (map_of al). g (the (map_of al k')))"
    using fresh by (intro sum.cong) (auto simp: p)
  finally show ?case
    using Cons.IH [OF dist] by (simp add: p)
qed

lemma count_dom:
  assumes "distinct (map fst al)"
  shows "length (filter (\<lambda>(k, r). P r) al) = card {k \<in> dom (map_of al). P (the (map_of al k))}"
proof -
  have "length (filter (\<lambda>(k, r). P r) al) = sum_list (map (\<lambda>(k, r). if P r then 1 else 0) al)"
    by (simp add: length_filter_sum case_prod_unfold)
  also have "\<dots> = (\<Sum>k \<in> dom (map_of al). if P (the (map_of al k)) then 1 else 0)"
    using assms by (rule sum_list_dom)
  also have "\<dots> = card {k \<in> dom (map_of al). P (the (map_of al k))}"
    by (simp add: sum.If_cases finite_dom_map_of Int_def)
  finally show ?thesis .
qed


lemma length_dom:
  assumes "distinct (map fst al)"
  shows "length al = card (dom (map_of al))"
proof -
  have "card (dom (map_of al)) = card (set (map fst al))"
    by (simp add: dom_map_of_conv_image_fst)
  also have "\<dots> = length (map fst al)"
    using assms by (rule distinct_card)
  finally show ?thesis by simp
qed

lemma delete_device_eq: "delete_device device_id data = AList.delete device_id data"
proof (cases "map_of data device_id")
  case None
  then have "device_id \<notin> fst ` set data"
    by (simp add: map_of_eq_None_iff)
  with None show ?thesis
    by (simp add: delete_device_def)
next
  case (Some r)
  then show ?thesis
    by (simp add: delete_device_def)
qed

lemma room101_fields:
  "energy_kwh room101 = 10 \<and> ac_status room101 \<and>
   cost_taka room101 = 85 \<and> carbon_emissions room101 = 5000"
  by code_simp

lemma room102_fields:
  "energy_kwh room102 = 5 \<and> \<not> ac_status room102 \<and>
   cost_taka room102 = 85 / 2 \<and> carbon_emissions room102 = 2500"
  by code_simp

lemma two_rooms_overview:
  "building_overview two_rooms
    = \<lparr>total_energy = 15, total_cost = 255 / 2, total_carbon = 7500,
       active_devices = 1, device_count = 2\<rparr>"
  by code_simp

section \<open>Deleting a device\<close>

text \<open>
  C6. After the "Delete" handler has run for an id, a lookup of that id finds nothing, and
  every other id maps to what it mapped to. When the id was not a key the registry is left
  as it was. When the id was a key with record \<open>r\<close>, each total of the overview is the
  old total less the field of \<open>r\<close>, the number of devices is one less, and the number of
  active devices is one less exactly when \<open>r\<close> was on (stated with the sum on the other
  side, since the counts are natural numbers).
\<close>

theorem delete_removes:
  assumes "distinct (map fst data)"
  shows "map_of (delete_device device_id data) device_id = None \<and>
    (\<forall>k. k \<noteq> device_id \<longrightarrow> map_of (delete_device device_id data) k = map_of data k) \<and>
    (device_id \<notin> set (map fst data) \<longrightarrow> delete_device device_id data = data) \<and>
    (\<forall>r. map_of data device_id = Some r \<longrightarrow>
       total_energy (building_overview data)
         = total_energy (building_overview (delete_device device_id data)) + energy_kwh r \<and>
       total_cost (building_overview data)
         = total_cost (building_overview (delete_device device_id data)) + cost_taka r \<and>
       total_carbon (building_overview data)
         = total_carbon (building_overview (delete_device device_id data)) + carbon_emissions r \<and>
       active_devices (building_overview data)
         = active_devices (building_overview (delete_device device_id data))
           + (if ac_status r then 1 else 0) \<and>
       device_count (building_overview data)
         = device_count (building_overview (delete_device device_id data)) + 1)"
proof (intro conjI allI impI)
  show "map_of (delete_device device_id data) device_id = None"
    by (simp add: delete_device_eq delete_conv')
  show "map_of (delete_device device_id data) k = map_of data k" if "k \<noteq> device_id" for k
    using that by (simp add: delete_device_eq)
  show "delete_device device_id data = data" if "device_id \<notin> set (map fst data)"
    using that by (simp add: delete_device_eq)
next
  fix r
  assume present: "map_of data device_id = Some r"
  note split = sum_list_delete [OF assms present]
  show "total_energy (building_overview data)
      = total_energy (building_overview (delete_device device_id data)) + energy_kwh r"
    using split [of "\<lambda>(k, r). energy_kwh r"]
    by (simp add: building_overview_def delete_device_eq)
  show "total_cost (building_overview data)
      = total_cost (building_overview (delete_device device_id data)) + cost_taka r"
    using split [of "\<lambda>(k, r). cost_taka r"]
    by (simp add: building_overview_def delete_device_eq)
  show "total_carbon (building_overview data)
      = total_carbon (building_overview (delete_device device_id data)) + carbon_emissions r"
    using split [of "\<lambda>(k, r). carbon_emissions r"]
    by (simp add: building_overview_def delete_device_eq)
  show "active_devices (building_overview data)
      = active_devices (building_overview (delete_device device_id data))
        + (if ac_status r then 1 else 0)"
    using split [of "\<lambda>p. if (\<lambda>(k, r). ac_status r) p then 1 else 0 :: nat"]
    by (simp add: building_overview_def delete_device_eq length_filter_sum)
  show "device_count (building_overview data)
      = device_count (building_overview (delete_device device_id data)) + 1"
    using split [of "\<lambda>p. 1 :: nat"]
    by (simp add: building_overview_def delete_device_eq length_as_sum)
qed

theorem delete_removes_witness:
  "distinct (map fst two_rooms) \<and>
   map_of two_rooms ''Room101'' = Some room101 \<and>
   map_of (delete_device ''Room101'' two_rooms) ''Room101'' = None \<and>
   map_of (delete_device ''Room101'' two_rooms) ''Room102'' = Some room102 \<and>
   delete_device ''NoSuchId'' two_rooms = two_rooms \<and>
   total_energy (building_overview (delete_device ''Room101'' two_rooms)) + energy_kwh room101 = 15 \<and>
   active_devices (building_overview (delete_device ''Room101'' two_rooms)) + 1 = 1 \<and>
   device_count (building_overview (delete_device ''Room101'' two_rooms)) + 1 = 2"
proof -
  have keys: "distinct (map fst two_rooms)"
    by (simp add: two_rooms_keys)
  have present: "map_of two_rooms ''Room101'' = Some room101"
    and other: "map_of two_rooms ''Room102'' = Some room102"
    by (simp_all add: two_rooms_def)
  have on: "ac_status room101"
    by (simp add: room101_def make_room_def)
  have absent: "''NoSuchId'' \<notin> set (map fst two_rooms)"
    by (simp add: two_rooms_keys)
  from delete_removes [OF keys, of "''Room101''"] delete_removes [OF keys, of "''NoSuchId''"]
  show ?thesis
    using keys present other on absent two_rooms_overview by simp
qed


section \<open>The overview metrics\<close>

text \<open>
  C8. The overview is a function of the registry it is given, so each call computes it
  from the current state. Its totals are the sums of \<open>energy_kwh\<close>, \<open>cost_taka\<close> and
  \<open>carbon_emissions\<close> over all ids of the registry, the number of active devices is the
  number of ids whose record is on, and the number of devices is the number of ids. For a
  registry holding exactly Room101 (10 kWh, on) and Room102 (5 kWh, off), with cost and
  carbon derived from the energy, the result is 15 kWh, cost 127.5, carbon 7500, one
  active device of two.
\<close>

theorem aggregate_sums:
  assumes "distinct (map fst data)"
  shows "total_energy (building_overview data)
      = (\<Sum>k \<in> dom (map_of data). energy_kwh (the (map_of data k))) \<and>
    total_cost (building_overview data)
      = (\<Sum>k \<in> dom (map_of data). cost_taka (the (map_of data k))) \<and>
    total_carbon (building_overview data)
      = (\<Sum>k \<in> dom (map_of data). carbon_emissions (the (map_of data k))) \<and>
    active_devices (building_overview data)
      = card {k \<in> dom (map_of data). ac_status (the (map_of data k))} \<and>
    device_count (building_overview data) = card (dom (map_of data)) \<and>
    (energy_kwh r1 = 10 \<and> ac_status r1 \<and>
     cost_taka r1 = energy_kwh r1 * (17 / 2) \<and> carbon_emissions r1 = energy_kwh r1 * 500 \<and>
     energy_kwh r2 = 5 \<and> \<not> ac_status r2 \<and>
     cost_taka r2 = energy_kwh r2 * (17 / 2) \<and> carbon_emissions r2 = energy_kwh r2 * 500 \<longrightarrow>
     building_overview [(''Room101'', r1), (''Room102'', r2)]
       = \<lparr>total_energy = 15, total_cost = 255 / 2, total_carbon = 7500,
          active_devices = 1, device_count = 2\<rparr>)"
proof (intro conjI impI)
  show "total_energy (building_overview data)
      = (\<Sum>k \<in> dom (map_of data). energy_kwh (the (map_of data k)))"
    using sum_list_dom [OF assms, of energy_kwh] by (simp add: building_overview_def)
  show "total_cost (building_overview data)
      = (\<Sum>k \<in> dom (map_of data). cost_taka (the (map_of data k)))"
    using sum_list_dom [OF assms, of cost_taka] by (simp add: building_overview_def)
  show "total_carbon (building_overview data)
      = (\<Sum>k \<in> dom (map_of data). carbon_emissions (the (map_of data k)))"
    using sum_list_dom [OF assms, of carbon_emissions] by (simp add: building_overview_def)
  show "active_devices (building_overview data)
      = card {k \<in> dom (map_of data). ac_status (the (map_of data k))}"
    using count_dom [OF assms, of ac_status] by (simp add: building_overview_def)
  show "device_count (building_overview data) = card (dom (map_of data))"
    using length_dom [OF assms] by (simp add: building_overview_def)
next
  assume "energy_kwh r1 = 10 \<and> ac_status r1 \<and>
     cost_taka r1 = energy_kwh r1 * (17 / 2) \<and> carbon_emissions r1 = energy_kwh r1 * 500 \<and>
     energy_kwh r2 = 5 \<and> \<not> ac_status r2 \<and>
     cost_taka r2 = energy_kwh r2 * (17 / 2) \<and> carbon_emissions r2 = energy_kwh r2 * 500"
  then show "building_overview [(''Room101'', r1), (''Room102'', r2)]
       = \<lparr>total_energy = 15, total_cost = 255 / 2, total_carbon = 7500,
          active_devices = 1, device_count = 2\<rparr>"
    by (simp add: building_overview_def)
qed

theorem aggregate_sums_witness:
  "distinct (map fst two_rooms) \<and>
   dom (map_of two_rooms) = {''Room101'', ''Room102''} \<and>
   total_energy (building_overview two_rooms)
     = (\<Sum>k \<in> {''Room101'', ''Room102''}. energy_kwh (the (map_of two_rooms k))) \<and>
   device_count (building_overview two_rooms) = card {''Room101'', ''Room102''} \<and>
   building_overview two_rooms
     = \<lparr>total_energy = 15, total_cost = 255 / 2, total_carbon = 7500,
        active_devices = 1, device_count = 2\<rparr>"
proof -
  have keys: "distinct (map fst two_rooms)"
    by (simp add: two_rooms_keys)
  have ids: "dom (map_of two_rooms) = {''Room101'', ''Room102''}"
    by (auto simp: two_rooms_def split: if_splits)
  from aggregate_sums [OF keys, of room101 room102] room101_fields room102_fields
  show ?thesis
    unfolding ids using keys by (simp add: two_rooms_def)
qed


section \<open>The generated data\<close>

subsection \<open>Every generated record comes from one draw\<close>

lemma set_update_cases:
  "p \<in> set (AList.update k v al) \<Longrightarrow> p = (k, v) \<or> p \<in> set al"
  by (induction al) (auto split: if_splits)

lemma gen_rooms_sset:
  "sset (snd (gen_rooms fl rooms (data, rng))) \<subseteq> sset rng"
proof (induction rooms arbitrary: data rng)
  case Nil
  show ?case by simp
next
  case (Cons room rooms)
  have "sset (snd (gen_rooms fl (room # rooms) (data, rng))) \<subseteq> sset (stl rng)"
    using Cons.IH by simp
  also have "sset (stl rng) \<subseteq> sset rng"
    by (auto dest: stl_sset)
  finally show ?case .
qed

lemma gen_rooms_entries:
  assumes "(k, r) \<in> set (fst (gen_rooms fl rooms (data, rng)))"
  shows "(k, r) \<in> set data \<or>
    (\<exists>room d. d \<in> sset rng \<and> k = replace_space room \<and> r = make_room fl room d)"
  using assms
proof (induction rooms arbitrary: data rng)
  case Nil
  then show ?case by simp
next
  case (Cons room rooms)
  let ?data = "AList.update (replace_space room) (make_room fl room (shd rng)) data"
  from Cons.prems have "(k, r) \<in> set (fst (gen_rooms fl rooms (?data, stl rng)))"
    by simp
  then consider (old) "(k, r) \<in> set ?data"
    | (new) room' d where "d \<in> sset (stl rng)" "k = replace_space room'" "r = make_room fl room' d"
    using Cons.IH by blast
  then show ?case
  proof cases
    case old
    then have "(k, r) = (replace_space room, make_room fl room (shd rng)) \<or> (k, r) \<in> set data"
      by (rule set_update_cases)
    then show ?thesis
      using shd_sset [of rng] by auto
  next
    case new
    then show ?thesis
      using stl_sset [of d rng] by auto
  qed
qed

lemma gen_floors_entries:
  assumes "(k, r) \<in> set (fst (gen_floors fs (data, rng)))"
  shows "(k, r) \<in> set data \<or>
    (\<exists>fl room d. d \<in> sset rng \<and> k = replace_space room \<and> r = make_room fl room d)"
  using assms
proof (induction fs arbitrary: data rng)
  case Nil
  then show ?case by simp
next
  case (Cons f fs)
  obtain fl rooms where f: "f = (fl, rooms)" by (cases f)
  obtain data' rng' where step: "gen_rooms fl rooms (data, rng) = (data', rng')"
    by (cases "gen_rooms fl rooms (data, rng)")
  have sub: "sset rng' \<subseteq> sset rng"
    using gen_rooms_sset [of fl rooms data rng] by (simp add: step)
  from Cons.prems have "(k, r) \<in> set (fst (gen_floors fs (data', rng')))"
    by (simp add: f step)
  then consider (old) "(k, r) \<in> set data'"
    | (new) fl' room d where "d \<in> sset rng'" "k = replace_space room" "r = make_room fl' room d"
    using Cons.IH by blast
  then show ?case
  proof cases
    case old
    then have "(k, r) \<in> set (fst (gen_rooms fl rooms (data, rng)))"
      by (simp add: step)
    then show ?thesis
      by (blast dest: gen_rooms_entries)
  next
    case new
    with sub show ?thesis by blast
  qed
qed

lemma generated_entry:
  assumes "(k, r) \<in> set (generate_synthetic_data rng)"
  obtains fl room d where "d \<in> sset rng" "k = replace_space room" "r = make_room fl room d"
  using assms gen_floors_entries [of k r get_building_structure "[]" rng]
  by (auto simp: generate_synthetic_data_def)

subsection \<open>Keys of the generated data\<close>

text \<open>
  The loops, for any structure: when the room names without their spaces are pairwise
  distinct and none of them is a key yet, the loops append one record for each room, in
  the order of the structure.
\<close>

lemma update_fresh:
  "k \<notin> set (map fst al) \<Longrightarrow> AList.update k v al = al @ [(k, v)]"
  by (induction al) auto

lemma make_room_name: "room_name (make_room fl room d) = room"
  by (simp add: make_room_def Let_def)

lemma gen_rooms_in_order:
  assumes "distinct (map replace_space rooms)"
    and "set (map replace_space rooms) \<inter> set (map fst data) = {}"
  shows "map fst (fst (gen_rooms fl rooms (data, rng))) = map fst data @ map replace_space rooms \<and>
    map (room_name \<circ> snd) (fst (gen_rooms fl rooms (data, rng)))
      = map (room_name \<circ> snd) data @ rooms"
  using assms
proof (induction rooms arbitrary: data rng)
  case Nil
  show ?case by simp
next
  case (Cons room rooms)
  let ?k = "replace_space room"
  let ?v = "make_room fl room (shd rng)"
  from Cons.prems have fresh: "?k \<notin> set (map fst data)"
    by auto
  then have upd: "AList.update ?k ?v data = data @ [(?k, ?v)]"
    by (rule update_fresh)
  from Cons.prems have "distinct (map replace_space rooms)"
    and "set (map replace_space rooms) \<inter> set (map fst (data @ [(?k, ?v)])) = {}"
    by auto
  from Cons.IH [OF this, of "stl rng"] show ?case
    by (simp add: upd make_room_name)
qed

lemma gen_floors_in_order:
  assumes "distinct (map replace_space (concat (map snd fs)))"
    and "set (map replace_space (concat (map snd fs))) \<inter> set (map fst data) = {}"
  shows "map fst (fst (gen_floors fs (data, rng)))
      = map fst data @ map replace_space (concat (map snd fs)) \<and>
    map (room_name \<circ> snd) (fst (gen_floors fs (data, rng)))
      = map (room_name \<circ> snd) data @ concat (map snd fs)"
  using assms
proof (induction fs arbitrary: data rng)
  case Nil
  show ?case by simp
next
  case (Cons f fs)
  obtain fl rooms where f: "f = (fl, rooms)" by (cases f)
  obtain data' rng' where step: "gen_rooms fl rooms (data, rng) = (data', rng')"
    by (cases "gen_rooms fl rooms (data, rng)")
  let ?here = "map replace_space rooms"
  let ?later = "map replace_space (concat (map snd fs))"
  from Cons.prems(1) have split: "distinct ?here" "distinct ?later" "set ?here \<inter> set ?later = {}"
    by (simp_all add: f)
  from Cons.prems(2) have apart: "set ?here \<inter> set (map fst data) = {}"
    "set ?later \<inter> set (map fst data) = {}"
    by (simp_all add: f Int_Un_distrib2)
  from gen_rooms_in_order [OF split(1) apart(1), of fl rng]
  have keys': "map fst data' = map fst data @ ?here"
    and names': "map (room_name \<circ> snd) data' = map (room_name \<circ> snd) data @ rooms"
    by (simp_all add: step)
  have "set ?later \<inter> set (map fst data') = {}"
    unfolding keys' set_append using split(3) apart(2) by blast
  from Cons.IH [OF split(2) this, of rng'] show ?case
    by (simp add: f step keys' names' [unfolded comp_def] comp_def)
qed

text \<open>Under the same condition, the record of the \<open>i\<close>-th room is made from the \<open>i\<close>-th draw.\<close>

lemma gen_rooms_draws:
  assumes "distinct (map replace_space rooms)"
    and "set (map replace_space rooms) \<inter> set (map fst data) = {}"
  shows "gen_rooms fl rooms (data, rng)
    = (data @ map room_entry (zip (map (Pair fl) rooms) (stake (length rooms) rng)),
       sdrop (length rooms) rng)"
  using assms
proof (induction rooms arbitrary: data rng)
  case Nil
  show ?case by simp
next
  case (Cons room rooms)
  let ?k = "replace_space room"
  let ?v = "make_room fl room (shd rng)"
  from Cons.prems have fresh: "?k \<notin> set (map fst data)"
    by auto
  then have upd: "AList.update ?k ?v data = data @ [(?k, ?v)]"
    by (rule update_fresh)
  from Cons.prems have "distinct (map replace_space rooms)"
    and "set (map replace_space rooms) \<inter> set (map fst (data @ [(?k, ?v)])) = {}"
    by auto
  from Cons.IH [OF this, of "stl rng"] show ?case
    by (simp add: upd room_entry_def)
qed

lemma gen_floors_draws:
  assumes "distinct (map replace_space (concat (map snd fs)))"
    and "set (map replace_space (concat (map snd fs))) \<inter> set (map fst data) = {}"
  shows "gen_floors fs (data, rng)
    = (data @ map room_entry (zip (floor_rooms fs) (stake (length (floor_rooms fs)) rng)),
       sdrop (length (floor_rooms fs)) rng)"
  using assms
proof (induction fs arbitrary: data rng)
  case Nil
  show ?case by (simp add: floor_rooms_def)
next
  case (Cons f fs)
  obtain fl rooms where f: "f = (fl, rooms)" by (cases f)
  let ?here = "map replace_space rooms"
  let ?later = "map replace_space (concat (map snd fs))"
  let ?n = "length rooms"
  let ?m = "length (floor_rooms fs)"
  let ?new = "map room_entry (zip (map (Pair fl) rooms) (stake ?n rng))"
  from Cons.prems(1) have split: "distinct ?here" "distinct ?later" "set ?here \<inter> set ?later = {}"
    by (simp_all add: f)
  from Cons.prems(2) have apart: "set ?here \<inter> set (map fst data) = {}"
    "set ?later \<inter> set (map fst data) = {}"
    by (simp_all add: f Int_Un_distrib2)
  have step: "gen_rooms fl rooms (data, rng) = (data @ ?new, sdrop ?n rng)"
    using split(1) apart(1) by (rule gen_rooms_draws)
  have "map fst (data @ ?new) = map fst data @ ?here"
    using gen_rooms_in_order [OF split(1) apart(1), of fl rng] by (simp add: step)
  then have "set ?later \<inter> set (map fst (data @ ?new)) = {}"
    using split(3) apart(2) by (simp only: set_append) blast
  from Cons.IH [OF split(2) this, of "sdrop ?n rng"]
  have rest: "gen_floors fs (data @ ?new, sdrop ?n rng)
      = ((data @ ?new) @ map room_entry (zip (floor_rooms fs) (stake ?m (sdrop ?n rng))),
         sdrop ?m (sdrop ?n rng))" .
  have pairs: "floor_rooms (f # fs) = map (Pair fl) rooms @ floor_rooms fs"
    by (simp add: floor_rooms_def f)
  then have len: "length (floor_rooms (f # fs)) = ?n + ?m"
    by simp
  have draws: "stake (?n + ?m) rng = stake ?n rng @ stake ?m (sdrop ?n rng)"
    by (simp only: stake_add)
  have "zip (floor_rooms (f # fs)) (stake (length (floor_rooms (f # fs))) rng)
      = zip (floor_rooms (f # fs)) (stake (?n + ?m) rng)"
    by (simp only: len)
  also have "\<dots>
      = zip (map (Pair fl) rooms @ floor_rooms fs) (stake ?n rng @ stake ?m (sdrop ?n rng))"
    by (simp only: pairs draws)
  also have "\<dots> = zip (map (Pair fl) rooms) (stake ?n rng)
      @ zip (floor_rooms fs) (stake ?m (sdrop ?n rng))"
    by (rule zip_append) simp
  finally have zips: "zip (floor_rooms (f # fs)) (stake (length (floor_rooms (f # fs))) rng)
      = zip (map (Pair fl) rooms) (stake ?n rng)
        @ zip (floor_rooms fs) (stake ?m (sdrop ?n rng))" .
  have drops: "sdrop (length (floor_rooms (f # fs))) rng = sdrop ?m (sdrop ?n rng)"
    by (simp add: len)
  have "gen_floors (f # fs) (data, rng) = gen_floors fs (data @ ?new, sdrop ?n rng)"
    by (simp add: f step)
  also note rest
  finally show ?case
    unfolding zips drops by simp
qed

text \<open>The structure of the code meets that condition.\<close>

lemma structure_ids_distinct:
  "distinct (map replace_space (concat (map snd get_building_structure)))"
  by (simp add: get_building_structure_def replace_space_def)

lemma generated_keys:
  "map fst (generate_synthetic_data rng)
    = map replace_space (concat (map snd get_building_structure))"
  using gen_floors_in_order [OF structure_ids_distinct, of "[]" rng]
  by (simp add: generate_synthetic_data_def)

lemma generated_names:
  "map (room_name \<circ> snd) (generate_synthetic_data rng)
    = concat (map snd get_building_structure)"
  using gen_floors_in_order [OF structure_ids_distinct, of "[]" rng]
  by (simp add: generate_synthetic_data_def)

lemma generated_from_draws:
  "generate_synthetic_data rng
    = map room_entry (zip (floor_rooms get_building_structure)
        (stake (length (floor_rooms get_building_structure)) rng))"
  using gen_floors_draws [OF structure_ids_distinct, of "[]" rng]
  by (simp add: generate_synthetic_data_def)

lemma generated_record:
  assumes "i < length (generate_synthetic_data rng)"
  obtains fl room where "snd (generate_synthetic_data rng ! i) = make_room fl room (rng !! i)"
proof -
  let ?pairs = "floor_rooms get_building_structure"
  from assms have i: "i < length ?pairs"
    by (simp add: generated_from_draws)
  obtain fl room where pair: "?pairs ! i = (fl, room)"
    by (cases "?pairs ! i")
  from i have "generate_synthetic_data rng ! i = room_entry (?pairs ! i, rng !! i)"
    by (simp add: generated_from_draws)
  then have "snd (generate_synthetic_data rng ! i) = make_room fl room (rng !! i)"
    by (simp add: pair room_entry_def)
  then show ?thesis
    by (rule that)
qed

lemma structure_ids_whitespace:
  "map replace_space (concat (map snd get_building_structure))
    = map remove_whitespace (concat (map snd get_building_structure))"
  by (simp add: get_building_structure_def replace_space_def remove_whitespace_def
      is_whitespace_def)

text \<open>
  C3. The building structure is fixed in the code (\<^const>\<open>get_building_structure\<close>);
  for every sequence of draws, the generated registry lists the rooms of all floors in
  order, one record for each room name, and the key of each record is its room name
  without the spaces. On these room names that is the name without its whitespace. The
  ids are pairwise distinct, as are the room names, and there are as many records as
  rooms.
\<close>

theorem generate_one_record_per_room:
  "map (room_name \<circ> snd) (generate_synthetic_data rng)
     = concat (map snd get_building_structure) \<and>
   map fst (generate_synthetic_data rng)
     = map replace_space (concat (map snd get_building_structure)) \<and>
   map replace_space (concat (map snd get_building_structure))
     = map remove_whitespace (concat (map snd get_building_structure)) \<and>
   distinct (map fst (generate_synthetic_data rng)) \<and>
   distinct (concat (map snd get_building_structure)) \<and>
   length (generate_synthetic_data rng) = length (concat (map snd get_building_structure))"
proof -
  have "length (map fst (generate_synthetic_data rng))
      = length (map replace_space (concat (map snd get_building_structure)))"
    by (simp only: generated_keys)
  then have size: "length (generate_synthetic_data rng)
      = length (concat (map snd get_building_structure))"
    by simp
  have rooms: "distinct (concat (map snd get_building_structure))"
    using structure_ids_distinct by (simp add: distinct_map)
  have "distinct (map fst (generate_synthetic_data rng))"
    by (simp only: generated_keys structure_ids_distinct)
  with generated_keys generated_names structure_ids_whitespace size rooms show ?thesis
    by blast
qed

subsection \<open>Rounding\<close>

lemma round_half_even_close: "\<bar>of_int (round_half_even y) - y\<bar> \<le> 1 / 2"
proof -
  have "of_int \<lfloor>y\<rfloor> \<le> y" and "y < of_int \<lfloor>y\<rfloor> + 1"
    by linarith+
  then show ?thesis
    by (auto simp: round_half_even_def Let_def)
qed

lemma round2_close: "\<bar>round2 x - x\<bar> \<le> 1 / 200"
proof -
  have "\<bar>round2 x - x\<bar> = \<bar>of_int (round_half_even (x * 100)) - x * 100\<bar> / 100"
    by (simp add: round2_def field_simps)
  also have "\<dots> \<le> (1 / 2) / 100"
    using round_half_even_close [of "x * 100"] by (simp add: divide_right_mono)
  finally show ?thesis by simp
qed

lemma round2_within:
  assumes "of_int n - 1 / 2 < x * 100" and "x * 100 < of_int n + 1 / 2"
  shows "round2 x = of_int n / 100"
proof -
  define y where "y = x * 100"
  have "of_int \<lfloor>y\<rfloor> \<le> y" and "y < of_int \<lfloor>y\<rfloor> + 1"
    by linarith+
  with assms have "rat_of_int \<lfloor>y\<rfloor> < of_int n + 1" and "rat_of_int n - 2 < of_int \<lfloor>y\<rfloor>"
    unfolding y_def by linarith+
  then have "rat_of_int \<lfloor>y\<rfloor> < of_int (n + 1)" and "rat_of_int (n - 2) < of_int \<lfloor>y\<rfloor>"
    by simp_all
  then have "\<lfloor>y\<rfloor> < n + 1" and "n - 2 < \<lfloor>y\<rfloor>"
    by (simp_all only: of_int_less_iff)
  then consider "\<lfloor>y\<rfloor> = n" | "\<lfloor>y\<rfloor> = n - 1"
    by linarith
  then have "round_half_even y = n"
  proof cases
    case 1
    with assms(2) show ?thesis
      by (simp add: round_half_even_def Let_def y_def)
  next
    case 2
    with assms(1) show ?thesis
      by (simp add: round_half_even_def Let_def y_def)
  qed
  then show ?thesis
    by (simp add: round2_def y_def)
qed

text \<open>From 1 on, the spacing of the doubles around \<open>x\<close> is at most \<open>x / 2 ^ 52\<close>.\<close>

lemma ulp_bound:
  assumes "1 \<le> x"
  shows "0 < ulp x \<and> ulp x * 2 ^ 52 \<le> x"
proof -
  let ?n = "\<lfloor>x\<rfloor>"
  let ?e = "bitlen ?n - 1"
  from assms have n: "0 < ?n"
    by linarith
  then have low: "2 ^ nat ?e \<le> ?n"
    using bitlen_bounds [of ?n] by simp
  have "rat_of_int (2 ^ nat ?e) \<le> rat_of_int ?n"
    using low by (simp only: of_int_le_iff)
  also have "\<dots> \<le> x"
    by simp
  finally have pow: "(2::rat) ^ nat ?e \<le> x"
    by simp
  from n have e0: "0 \<le> ?e"
    using bitlen_eq_zero_iff [of ?n] bitlen_nonneg [of ?n] by linarith
  from assms have ax: "\<bar>x\<bar> = x"
    by simp
  show ?thesis
  proof (cases "52 \<le> ?e")
    case True
    then have u: "ulp x = 2 ^ nat (?e - 52)"
      using assms by (simp add: ulp_def binary_exponent_def ax Let_def)
    have "(2::rat) ^ nat (?e - 52) * 2 ^ 52 = 2 ^ (nat (?e - 52) + 52)"
      by (simp add: power_add)
    also have "nat (?e - 52) + 52 = nat ?e"
      using True by simp
    finally show ?thesis
      using pow by (simp add: u)
  next
    case False
    then have u: "ulp x = 1 / 2 ^ nat (52 - ?e)"
      using assms by (simp add: ulp_def binary_exponent_def ax Let_def)
    define a b :: rat where "a = 2 ^ nat (52 - ?e)" and "b = 2 ^ nat ?e"
    have "nat (52 - ?e) + nat ?e = 52"
      using False e0 by simp
    then have eq: "(2::rat) ^ 52 = a * b"
      unfolding a_def b_def by (simp only: power_add [symmetric])
    have a: "0 < a"
      by (simp add: a_def)
    have "1 / a * 2 ^ 52 = 1 / a * (a * b)"
      by (simp only: eq)
    also have "\<dots> = b"
      using a by simp
    finally have "1 / a * 2 ^ 52 = b" .
    with pow a show ?thesis
      unfolding u a_def [symmetric] b_def [symmetric] by simp
  qed
qed

lemma to_double_close:
  assumes "1 \<le> x"
  shows "\<bar>to_double x - x\<bar> \<le> x / 2 ^ 53"
proof -
  from ulp_bound [OF assms] have pos: "0 < ulp x" and small: "ulp x * 2 ^ 52 \<le> x"
    by simp_all
  from assms have "to_double x - x = (of_int (round_half_even (x / ulp x)) - x / ulp x) * ulp x"
    using pos by (simp add: to_double_def field_simps)
  then have "\<bar>to_double x - x\<bar> = \<bar>of_int (round_half_even (x / ulp x)) - x / ulp x\<bar> * ulp x"
    using pos by (simp add: abs_mult)
  also have "\<dots> \<le> (1 / 2) * ulp x"
    using round_half_even_close [of "x / ulp x"] pos by (intro mult_right_mono) simp_all
  also have "\<dots> \<le> x / 2 ^ 53"
    using small by simp
  finally show ?thesis .
qed

lemma to_double_near:
  assumes "1 \<le> x" and "x \<le> 16384"
  shows "\<bar>to_double x - x\<bar> \<le> 1 / 100000000000"
proof -
  from assms(2) have "x / 2 ^ 53 \<le> 1 / 100000000000"
    by simp
  with to_double_close [OF assms(1)] show ?thesis
    by linarith
qed

lemma to_double_near_small:
  assumes "1 \<le> x" and "x \<le> 32"
  shows "\<bar>to_double x - x\<bar> \<le> 1 / 100000000000000"
proof -
  from assms(2) have "x / 2 ^ 53 \<le> 1 / 100000000000000"
    by simp
  with to_double_close [OF assms(1)] show ?thesis
    by linarith
qed

lemma py_round2_near:
  assumes "2 \<le> x" and "x \<le> 16000"
  shows "\<bar>py_round2 x - x\<bar> \<le> 1 / 200 + 1 / 100000000000"
proof -
  have near: "\<bar>round2 x - x\<bar> \<le> 1 / 200"
    by (rule round2_close)
  with assms have "1 \<le> round2 x" and "round2 x \<le> 16384"
    by linarith+
  then have "\<bar>to_double (round2 x) - round2 x\<bar> \<le> 1 / 100000000000"
    by (rule to_double_near)
  with near show ?thesis
    unfolding py_round2_def by linarith
qed

lemma py_round2_near_small:
  assumes "2 \<le> x" and "x \<le> 31"
  shows "\<bar>py_round2 x - x\<bar> \<le> 1 / 200 + 1 / 100000000000000"
proof -
  have near: "\<bar>round2 x - x\<bar> \<le> 1 / 200"
    by (rule round2_close)
  with assms have "1 \<le> round2 x" and "round2 x \<le> 32"
    by linarith+
  then have "\<bar>to_double (round2 x) - round2 x\<bar> \<le> 1 / 100000000000000"
    by (rule to_double_near_small)
  with near show ?thesis
    unfolding py_round2_def by linarith
qed

text \<open>
  Near a tie the double product decides. For the double nearest to 5.83 the exact product
  with 8.5 lies above 49.555 and the double product below it; the code stores 49.55. For
  the double nearest to 5.00005 the exact product with 500 lies below 2500.025 and the
  double product is 2500.025, a tie no more once read exactly; the code stores 2500.03.
\<close>

lemma cost_near_tie:
  "py_round2 (to_double (to_double (583 / 100) * (17 / 2))) = to_double (4955 / 100) \<and>
   round2 (to_double (583 / 100) * (17 / 2)) = 4956 / 100"
  by code_simp

lemma carbon_near_tie:
  "py_round2 (to_double (to_double (500005 / 100000) * 500)) = to_double (250003 / 100) \<and>
   round2 (to_double (500005 / 100000) * 500) = 250002 / 100"
  by code_simp

subsection \<open>Derived fields of the generated records\<close>

lemma low_room_generated:
  "(''Room101'', low_room) \<in> set (generate_synthetic_data (sconst low_draw))"
  by (simp add: generate_synthetic_data_def get_building_structure_def replace_space_def
      low_room_def)

lemma low_room_first:
  "0 < length (generate_synthetic_data (sconst low_draw)) \<and>
   low_room = snd (generate_synthetic_data (sconst low_draw) ! 0)"
  by (simp add: generate_synthetic_data_def get_building_structure_def replace_space_def
      low_room_def)

lemma low_draw_valid: "valid_draw low_draw"
  by (simp add: valid_draw_def low_draw_def)

text \<open>
  The record of Room101 for the draw with power 800 and energy 5.1875: the stored values
  are the doubles nearest to 3.64, 5.19, 44.09 and 2593.75.
\<close>

lemma low_room_fields:
  "power_w low_room = 800 \<and> voltage low_room = 220 \<and>
   current low_room = to_double (364 / 100) \<and>
   energy_kwh low_room = to_double (519 / 100) \<and>
   cost_taka low_room = to_double (4409 / 100) \<and>
   carbon_emissions low_room = to_double (259375 / 100)"
proof -
  have "\<bar>to_double (800 / 220) - 800 / 220\<bar> \<le> 1 / 100000000000"
    by (rule to_double_near) simp_all
  then have "round2 (to_double (800 / 220)) = of_int 364 / 100"
    by (intro round2_within) linarith+
  then have cur: "py_round2 (to_double (800 / 220)) = to_double (of_int 364 / 100)"
    by (simp only: py_round2_def)
  have "round2 (83 / 16) = of_int 519 / 100"
    by (rule round2_within) simp_all
  then have energy: "py_round2 (83 / 16) = to_double (of_int 519 / 100)"
    by (simp only: py_round2_def)
  have "\<bar>to_double (83 / 16 * (17 / 2)) - 83 / 16 * (17 / 2)\<bar> \<le> 1 / 100000000000"
    by (rule to_double_near) simp_all
  then have "round2 (to_double (83 / 16 * (17 / 2))) = of_int 4409 / 100"
    by (intro round2_within) linarith+
  then have cost: "py_round2 (to_double (83 / 16 * (17 / 2))) = to_double (of_int 4409 / 100)"
    by (simp only: py_round2_def)
  have "\<bar>to_double (83 / 16 * 500) - 83 / 16 * 500\<bar> \<le> 1 / 100000000000"
    by (rule to_double_near) simp_all
  then have "round2 (to_double (83 / 16 * 500)) = of_int 259375 / 100"
    by (intro round2_within) linarith+
  then have carbon: "py_round2 (to_double (83 / 16 * 500)) = to_double (of_int 259375 / 100)"
    by (simp only: py_round2_def)
  show ?thesis
    unfolding low_room_def low_draw_def make_room_def Let_def
    using cur energy cost carbon by simp
qed

lemma low_room_gaps:
  "\<not> \<bar>current low_room - of_int (power_w low_room) / of_int (voltage low_room)\<bar> \<le> 1 / 1000 \<and>
   \<not> \<bar>cost_taka low_room - energy_kwh low_room * (17 / 2)\<bar> \<le> 1 / 100 \<and>
   \<not> \<bar>carbon_emissions low_room - energy_kwh low_room * 500\<bar> \<le> 1"
proof -
  have cur: "\<bar>to_double (364 / 100) - 364 / 100\<bar> \<le> 1 / 100000000000"
    by (rule to_double_near) simp_all
  have energy: "\<bar>to_double (519 / 100) - 519 / 100\<bar> \<le> 1 / 100000000000"
    by (rule to_double_near) simp_all
  have cost: "\<bar>to_double (4409 / 100) - 4409 / 100\<bar> \<le> 1 / 100000000000"
    by (rule to_double_near) simp_all
  have carbon: "\<bar>to_double (259375 / 100) - 259375 / 100\<bar> \<le> 1 / 100000000000"
    by (rule to_double_near) simp_all
  have "\<not> \<bar>to_double (364 / 100) - 800 / 220\<bar> \<le> 1 / 1000"
    using cur by linarith
  moreover have "\<not> \<bar>to_double (4409 / 100) - to_double (519 / 100) * (17 / 2)\<bar> \<le> 1 / 100"
    using cost energy by linarith
  moreover have "\<not> \<bar>to_double (259375 / 100) - to_double (519 / 100) * 500\<bar> \<le> 1"
    using carbon energy by linarith
  ultimately show ?thesis
    using low_room_fields by simp
qed

text \<open>
  C2, as the specification states it, fails: each derived field is stored rounded to two
  decimals, and the cost and the carbon are rounded from the energy before the energy
  itself is rounded. For the draw with power 800 and energy 5.1875 the record of Room101
  has current 3.64 against 800 / 220 = 3.6363..., cost 44.09 against 5.19 * 8.5 = 44.115
  and carbon 2593.75 against 5.19 * 500 = 2595: gaps of more than 0.001, 0.01 and 1.
\<close>

theorem generated_fields_exact_counterexample:
  "(''Room101'', low_room) \<in> set (generate_synthetic_data (sconst low_draw)) \<and>
   valid_draw low_draw \<and>
   \<not> \<bar>current low_room - of_int (power_w low_room) / of_int (voltage low_room)\<bar> \<le> 1 / 1000 \<and>
   \<not> \<bar>cost_taka low_room - energy_kwh low_room * (17 / 2)\<bar> \<le> 1 / 100 \<and>
   \<not> \<bar>carbon_emissions low_room - energy_kwh low_room * 500\<bar> \<le> 1 \<and>
   cost_taka low_room \<noteq> energy_kwh low_room * (17 / 2) \<and>
   carbon_emissions low_room \<noteq> energy_kwh low_room * 500"
  using low_room_generated low_draw_valid low_room_gaps by auto

text \<open>
  C2, amended. The \<open>i\<close>-th record of the generated registry is made from the \<open>i\<close>-th
  draw. With \<open>p\<close> and \<open>e\<close> the power and the energy of that draw (in the ranges of the
  \<^verbatim>\<open>random\<close> calls): the power stored is \<open>p\<close>, between 800 and 2000, the voltage is
  220, the current is the double \<open>p / 220\<close> rounded to two decimals, and the stored energy,
  cost and carbon are \<open>e\<close>, the double \<open>e * 8.5\<close> and the double \<open>e * 500\<close>, each
  rounded to two decimals; the cost and the carbon come from the unrounded \<open>e\<close>. Hence
  the current is within 0.005 of power / voltage, the cost within 0.0475 of the stored
  energy times 8.5, and the carbon within 2.505 of the stored energy times 500, each up to
  1e-9 for the rounding of the doubles.
\<close>

theorem generated_fields_rounded:
  assumes "\<forall>d \<in> sset rng. valid_draw d"
    and "i < length (generate_synthetic_data rng)"
    and "r = snd (generate_synthetic_data rng ! i)"
    and "d = rng !! i"
  shows "power_w r = d_power d \<and> 800 \<le> power_w r \<and> power_w r \<le> 2000 \<and> voltage r = 220 \<and>
    5 \<le> d_energy d \<and> d_energy d \<le> 25 \<and>
    current r = py_round2 (to_double (of_int (power_w r) / of_int (voltage r))) \<and>
    energy_kwh r = py_round2 (d_energy d) \<and>
    cost_taka r = py_round2 (to_double (d_energy d * (17 / 2))) \<and>
    carbon_emissions r = py_round2 (to_double (d_energy d * 500)) \<and>
    \<bar>current r - of_int (power_w r) / of_int (voltage r)\<bar> \<le> 1 / 200 + 1 / 10 ^ 9 \<and>
    \<bar>cost_taka r - energy_kwh r * (17 / 2)\<bar> \<le> 19 / 400 + 1 / 10 ^ 9 \<and>
    \<bar>carbon_emissions r - energy_kwh r * 500\<bar> \<le> 501 / 200 + 1 / 10 ^ 9"
proof -
  from assms(2) obtain fl room
    where "snd (generate_synthetic_data rng ! i) = make_room fl room (rng !! i)"
    by (rule generated_record)
  with assms(3,4) have r: "r = make_room fl room d"
    by simp
  have "d \<in> sset rng"
    unfolding assms(4) by (rule snth_sset)
  with assms(1) have valid: "valid_draw d"
    by blast
  define q :: rat where "q = of_int (d_power d) / 220"
  define e where "e = d_energy d"
  have power: "power_w r = d_power d \<and> 800 \<le> power_w r \<and> power_w r \<le> 2000 \<and> voltage r = 220"
    using valid by (simp add: r make_room_def valid_draw_def Let_def)
  have range: "5 \<le> e \<and> e \<le> 25"
    using valid by (simp add: valid_draw_def e_def)
  have ratio: "of_int (power_w r) / of_int (voltage r) = q"
    using power by (simp add: q_def)
  have stored: "current r = py_round2 (to_double q)" "energy_kwh r = py_round2 e"
    "cost_taka r = py_round2 (to_double (e * (17 / 2)))"
    "carbon_emissions r = py_round2 (to_double (e * 500))"
    by (simp_all add: r make_room_def Let_def q_def e_def)
  from valid have "800 \<le> rat_of_int (d_power d)" and "rat_of_int (d_power d) \<le> 2000"
    by (simp_all add: valid_draw_def)
  then have q: "3 \<le> q \<and> q \<le> 10"
    unfolding q_def by simp
  then have q1: "\<bar>to_double q - q\<bar> \<le> 1 / 100000000000"
    by (intro to_double_near) simp_all
  with q have "2 \<le> to_double q" and "to_double q \<le> 16000"
    by linarith+
  then have q2: "\<bar>py_round2 (to_double q) - to_double q\<bar> \<le> 1 / 200 + 1 / 100000000000"
    by (rule py_round2_near)
  have "\<bar>py_round2 (to_double q) - q\<bar> \<le> 1 / 200 + 1 / 1000000000"
    using q1 q2 by linarith
  then have cur_close: "\<bar>current r - q\<bar> \<le> 1 / 200 + 1 / 10 ^ 9"
    by (simp add: stored)
  from range have e2: "\<bar>py_round2 e - e\<bar> \<le> 1 / 200 + 1 / 100000000000000"
    by (intro py_round2_near_small) simp_all
  from range have "1 \<le> e * (17 / 2)" and "e * (17 / 2) \<le> 16384"
    by linarith+
  then have c1: "\<bar>to_double (e * (17 / 2)) - e * (17 / 2)\<bar> \<le> 1 / 100000000000"
    by (rule to_double_near)
  with range have "2 \<le> to_double (e * (17 / 2))" and "to_double (e * (17 / 2)) \<le> 16000"
    by linarith+
  then have c2: "\<bar>py_round2 (to_double (e * (17 / 2))) - to_double (e * (17 / 2))\<bar>
      \<le> 1 / 200 + 1 / 100000000000"
    by (rule py_round2_near)
  have "\<bar>py_round2 (to_double (e * (17 / 2))) - py_round2 e * (17 / 2)\<bar>
      \<le> 19 / 400 + 1 / 1000000000"
    using e2 c1 c2 by linarith
  then have cost_close: "\<bar>cost_taka r - energy_kwh r * (17 / 2)\<bar> \<le> 19 / 400 + 1 / 10 ^ 9"
    by (simp add: stored)
  from range have "1 \<le> e * 500" and "e * 500 \<le> 16384"
    by linarith+
  then have g1: "\<bar>to_double (e * 500) - e * 500\<bar> \<le> 1 / 100000000000"
    by (rule to_double_near)
  with range have "2 \<le> to_double (e * 500)" and "to_double (e * 500) \<le> 16000"
    by linarith+
  then have g2: "\<bar>py_round2 (to_double (e * 500)) - to_double (e * 500)\<bar>
      \<le> 1 / 200 + 1 / 100000000000"
    by (rule py_round2_near)
  have "\<bar>py_round2 (to_double (e * 500)) - py_round2 e * 500\<bar>
      \<le> 501 / 200 + 1 / 1000000000"
    using e2 g1 g2 by linarith
  then have carbon_close:
    "\<bar>carbon_emissions r - energy_kwh r * 500\<bar> \<le> 501 / 200 + 1 / 10 ^ 9"
    by (simp add: stored)
  from power range stored cur_close cost_close carbon_close show ?thesis
    unfolding ratio e_def by blast
qed

theorem generated_fields_rounded_witness:
  "valid_draw low_draw \<and>
   0 < length (generate_synthetic_data (sconst low_draw)) \<and>
   low_room = snd (generate_synthetic_data (sconst low_draw) ! 0) \<and>
   low_draw = sconst low_draw !! 0 \<and>
   power_w low_room = d_power low_draw \<and>
   800 \<le> power_w low_room \<and> power_w low_room \<le> 2000 \<and> voltage low_room = 220 \<and>
   current low_room
     = py_round2 (to_double (of_int (power_w low_room) / of_int (voltage low_room))) \<and>
   energy_kwh low_room = py_round2 (d_energy low_draw) \<and>
   cost_taka low_room = py_round2 (to_double (d_energy low_draw * (17 / 2))) \<and>
   carbon_emissions low_room = py_round2 (to_double (d_energy low_draw * 500)) \<and>
   \<bar>current low_room - of_int (power_w low_room) / of_int (voltage low_room)\<bar>
     \<le> 1 / 200 + 1 / 10 ^ 9 \<and>
   \<bar>cost_taka low_room - energy_kwh low_room * (17 / 2)\<bar> \<le> 19 / 400 + 1 / 10 ^ 9 \<and>
   \<bar>carbon_emissions low_room - energy_kwh low_room * 500\<bar> \<le> 501 / 200 + 1 / 10 ^ 9"
proof -
  have draws: "\<forall>d \<in> sset (sconst low_draw). valid_draw d"
    by (simp add: low_draw_valid)
  have first: "0 < length (generate_synthetic_data (sconst low_draw))"
    and room: "low_room = snd (generate_synthetic_data (sconst low_draw) ! 0)"
    using low_room_first by simp_all
  have draw: "low_draw = sconst low_draw !! 0"
    by simp
  from generated_fields_rounded [OF draws first room draw]
    low_draw_valid first room draw
  show ?thesis
    by blast
qed

section \<open>Reachable registry states\<close>

lemma keyed_update:
  assumes "keyed_by_room_id data" and "room_id v = k"
  shows "keyed_by_room_id (AList.update k v data)"
  using assms by (auto simp: keyed_by_room_id_def list_all_iff dest!: set_update_cases)

lemma keyed_map_entry:
  assumes "keyed_by_room_id data" and "\<And>r. room_id (f r) = room_id r"
  shows "keyed_by_room_id (AList.map_entry k f data)"
  using assms(1) unfolding keyed_by_room_id_def
  by (induction data) (auto simp: assms(2))

lemma keyed_delete:
  assumes "keyed_by_room_id data"
  shows "keyed_by_room_id (AList.delete k data)"
  using assms by (auto simp: keyed_by_room_id_def list_all_iff AList.delete_eq)

lemma keyed_generated: "keyed_by_room_id (generate_synthetic_data rng)"
proof -
  have "room_id r = k" if "(k, r) \<in> set (generate_synthetic_data rng)" for k r
    using that by (rule generated_entry) (simp add: make_room_def Let_def)
  then show ?thesis
    by (auto simp: keyed_by_room_id_def list_all_iff)
qed

lemma keyed_switched:
  assumes "keyed_by_room_id data"
  shows "keyed_by_room_id (fst (update_device_status device_id status data))"
  using assms by (simp add: update_device_status_def keyed_map_entry)

lemma keyed_added:
  assumes "keyed_by_room_id data"
  shows "keyed_by_room_id
    (fst (add_device device_id name floor' dtype initial_status power_rating data))"
  using assms by (simp add: add_device_def keyed_update new_device_def)

lemma keyed_deleted:
  assumes "keyed_by_room_id data"
  shows "keyed_by_room_id (delete_device device_id data)"
  using assms by (simp add: delete_device_eq keyed_delete)

lemma reachable_distinct:
  assumes "reachable data"
  shows "distinct (map fst data)"
  using assms
proof (induction rule: reachable.induct)
  case (initial rng)
  show ?case by (simp only: generated_keys structure_ids_distinct)
next
  case (switched data device_id status)
  then show ?case by (simp add: update_device_status_def map_entry_keys)
next
  case (added data power_rating device_id name floor' dtype initial_status)
  then show ?case by (simp add: add_device_def distinct_update)
next
  case (deleted data device_id)
  then show ?case by (simp add: delete_device_eq distinct_delete)
qed


text \<open>
  C9. In every registry state that generation, adding, switching and deleting can lead to,
  each record is stored under the key that its \<open>room_id\<close> field holds.
\<close>

theorem reachable_keyed_by_room_id:
  assumes "reachable data"
  shows "keyed_by_room_id data"
  using assms
proof (induction rule: reachable.induct)
  case (initial rng)
  show ?case by (rule keyed_generated)
next
  case (switched data device_id status)
  then show ?case by (simp add: keyed_switched)
next
  case (added data power_rating device_id name floor' dtype initial_status)
  then show ?case by (simp add: keyed_added)
next
  case (deleted data device_id)
  then show ?case by (simp add: keyed_deleted)
qed

theorem reachable_keyed_by_room_id_witness:
  "reachable after_session \<and> keyed_by_room_id after_session"
proof -
  have "\<forall>d \<in> sset (sconst low_draw). valid_draw d"
    by (simp add: low_draw_valid)
  then have "reachable (generate_synthetic_data (sconst low_draw))"
    by (rule reachable.initial)
  then have "reachable (fst (update_device_status ''Room101'' False
      (generate_synthetic_data (sconst low_draw))))"
    by (rule reachable.switched)
  then have "reachable (fst (add_device ''Lab1'' ''Lab'' ''2'' ''Light'' ''ON'' 60
      (fst (update_device_status ''Room101'' False
        (generate_synthetic_data (sconst low_draw))))))"
    by (rule reachable.added) simp
  then have reach: "reachable after_session"
    unfolding after_session_def by (rule reachable.deleted)
  from reachable_keyed_by_room_id [OF reach] reach show ?thesis
    by simp
qed


end
